theory Spec2Isabelle
  imports Main "HOL-Library.AList"
begin

section \<open>Errors\<close>

text \<open>
  The exceptions the registry can raise: the two classes declared in
  \<^verbatim>\<open>NodeManager.py\<close>, and the built-in \<^verbatim>\<open>IndexError\<close> and \<^verbatim>\<open>KeyError\<close>
  of list indexing and \<^verbatim>\<open>dict.pop\<close>.
\<close>

datatype error = RegionNotFound string | NoNodesAvailable | IndexError | KeyError

section \<open>Region catalog\<close>

definition DISCORD_REGIONS :: "string list" where
  "DISCORD_REGIONS =
     [''amsterdam'', ''brazil'', ''eu-central'', ''eu-west'', ''frankfurt'', ''hongkong'',
      ''japan'', ''london'', ''russia'', ''singapore'', ''southafrica'', ''sydney'',
      ''us-central'', ''us-east'', ''us-south'', ''us-west'',
      ''vip-amsterdam'', ''vip-us-east'', ''vip-us-west'']"

text \<open>
  The validation loop of \<^verbatim>\<open>Regions.__init__\<close>: the first identifier outside the
  catalog raises \<^verbatim>\<open>RegionNotFound\<close>.
\<close>

fun Regions_check :: "string list \<Rightarrow> error + unit" where
  "Regions_check [] = Inr ()"
| "Regions_check (r # rs) =
     (if r \<notin> set DISCORD_REGIONS then Inl (RegionNotFound r) else Regions_check rs)"

text \<open>
  \<^verbatim>\<open>Regions(region_list=None)\<close>. The object holds one attribute, the list
  \<^verbatim>\<open>self.regions = region_list or DISCORD_REGIONS\<close>; \<^verbatim>\<open>None\<close> and the empty list
  are both falsy, so both select the whole catalog.
\<close>

definition Regions_init :: "string list option \<Rightarrow> error + string list" where
  "Regions_init region_list =
     (let regions = (case region_list of
                       None \<Rightarrow> DISCORD_REGIONS
                     | Some rl \<Rightarrow> if rl = [] then DISCORD_REGIONS else rl)
      in case Regions_check regions of Inl e \<Rightarrow> Inl e | Inr _ \<Rightarrow> Inr regions)"

text \<open>\<^verbatim>\<open>Regions.__iter__\<close>: yields every element of \<^verbatim>\<open>self.regions\<close> in turn.\<close>

fun Regions_iter :: "string list \<Rightarrow> string list" where
  "Regions_iter [] = []"
| "Regions_iter (r # rs) = r # Regions_iter rs"

section \<open>Python list indexing\<close>

text \<open>
  \<^verbatim>\<open>xs[i]\<close> for a Python integer: a negative index counts from the end, and an
  index outside \<open>[-len, len)\<close> raises \<^verbatim>\<open>IndexError\<close>.
\<close>

definition py_index :: "'a list \<Rightarrow> int \<Rightarrow> error + 'a" where
  "py_index xs i =
     (let n = int (length xs)
      in if 0 \<le> i \<and> i < n then Inr (xs ! nat i)
         else if - n \<le> i \<and> i < 0 then Inr (xs ! nat (n + i))
         else Inl IndexError)"

section \<open>Sessions, nodes and the registry\<close>

type_synonym track = string

text \<open>
  The attributes of a player that \<^verbatim>\<open>manage_failover\<close> reads or writes. A queue
  slot holds whatever \<^verbatim>\<open>previous\<close> held, which may be \<^verbatim>\<open>None\<close>.
\<close>

record player =
  node :: nat
  is_playing :: bool
  previous :: "track option"
  prev_position :: int
  channel_id :: "int option"
  queue :: "track option list"

text \<open>
  A \<^verbatim>\<open>LavalinkNode\<close> object: its region list (what iterating \<^verbatim>\<open>node.regions\<close>
  yields), its readiness event and the dictionary \<^verbatim>\<open>players._players\<close>, kept
  in insertion order. Host, ports and password play no part in the registry.
\<close>

record lavalink_node =
  regions :: "string list"
  ready :: bool
  players :: "(int \<times> player) list"

datatype event = NodeReadyEvent nat | NodeDisabledEvent nat

type_synonym hook = nat

text \<open>
  The \<^verbatim>\<open>NodeManager\<close> together with the objects it refers to. Nodes are objects
  compared by identity, so the lists hold node identifiers and \<open>node_heap\<close> maps
  an identifier to the object's state. \<open>tasks\<close> records the dispatch tasks handed
  to the event loop, \<open>voice_state_calls\<close> the guilds whose voice connection was
  released through the bot's websocket.
\<close>

record cluster =
  default_node_index :: int
  round_robin :: bool
  rr_pos :: int
  nodes :: "nat list"
  offline_nodes :: "nat list"
  nodes_by_region :: "string \<rightharpoonup> nat"
  hooks :: "hook list"
  cluster_ready :: bool
  node_heap :: "nat \<Rightarrow> lavalink_node"
  next_node :: nat
  tasks :: "event list"
  voice_state_calls :: "int list"

definition NodeManager_init :: "int \<Rightarrow> bool \<Rightarrow> cluster" where
  "NodeManager_init default_node rr =
     \<lparr> default_node_index = default_node, round_robin = rr, rr_pos = 0,
       nodes = [], offline_nodes = [], nodes_by_region = Map.empty, hooks = [],
       cluster_ready = False,
       node_heap = (\<lambda>_. \<lparr> regions = [], ready = False, players = [] \<rparr>),
       next_node = 0, tasks = [], voice_state_calls = [] \<rparr>"

text \<open>\<^verbatim>\<open>register_node_hook\<close> and \<^verbatim>\<open>unregister_node_hook\<close>.\<close>

definition register_node_hook :: "hook \<Rightarrow> cluster \<Rightarrow> cluster" where
  "register_node_hook func c =
     (if func \<notin> set (hooks c) then c\<lparr>hooks := hooks c @ [func]\<rparr> else c)"

definition unregister_node_hook :: "hook \<Rightarrow> cluster \<Rightarrow> cluster" where
  "unregister_node_hook func c =
     (if func \<in> set (hooks c) then c\<lparr>hooks := remove1 func (hooks c)\<rparr> else c)"

text \<open>
  \<^verbatim>\<open>add\<close>: a fresh node object, not ready and without players, appended to the
  offline list.
\<close>

definition add :: "string list \<Rightarrow> cluster \<Rightarrow> cluster" where
  "add regs c =
     (let n = next_node c
      in c\<lparr> node_heap := (node_heap c)(n := \<lparr> regions = regs, ready = False, players = [] \<rparr>),
            offline_nodes := offline_nodes c @ [n],
            next_node := Suc n \<rparr>)"

text \<open>The loop \<^verbatim>\<open>for region in node.regions: self.nodes_by_region.update({region: target})\<close>.\<close>

fun route_regions :: "string list \<Rightarrow> nat \<Rightarrow> (string \<rightharpoonup> nat) \<Rightarrow> (string \<rightharpoonup> nat)" where
  "route_regions [] target tab = tab"
| "route_regions (region # rs) target tab = route_regions rs target (tab(region \<mapsto> target))"

text \<open>
  \<^verbatim>\<open>on_node_ready\<close>. \<^verbatim>\<open>pop(index(node))\<close> removes the first occurrence of the
  node from the offline list.
\<close>

definition on_node_ready :: "nat \<Rightarrow> cluster \<Rightarrow> cluster" where
  "on_node_ready n c =
     (if n \<notin> set (offline_nodes c) then c
      else
        let c1 = c\<lparr> offline_nodes := remove1 n (offline_nodes c), nodes := nodes c @ [n] \<rparr>;
            c2 = c1\<lparr> node_heap := (node_heap c1)(n := (node_heap c1 n)\<lparr>ready := True\<rparr>) \<rparr>;
            c3 = c2\<lparr> cluster_ready := True \<rparr>;
            c4 = c3\<lparr> nodes_by_region :=
                        route_regions (regions (node_heap c3 n)) n (nodes_by_region c3) \<rparr>
        in c4\<lparr> tasks := tasks c4 @ [NodeReadyEvent n] \<rparr>)"

text \<open>
  \<^verbatim>\<open>on_node_disabled\<close>. When no online node is left the method returns after the
  warning: the routing table is not touched and no event task is created.
\<close>

definition on_node_disabled :: "nat \<Rightarrow> cluster \<Rightarrow> cluster" where
  "on_node_disabled n c =
     (if n \<notin> set (nodes c) then c
      else
        let c1 = c\<lparr> nodes := remove1 n (nodes c), offline_nodes := offline_nodes c @ [n] \<rparr>;
            c2 = c1\<lparr> node_heap := (node_heap c1)(n := (node_heap c1 n)\<lparr>ready := False\<rparr>) \<rparr>;
            c3 = (if nodes c2 = [] then c2\<lparr> cluster_ready := False \<rparr> else c2)
        in if nodes c3 = [] then c3
           else
             let default_node = nodes c3 ! 0;
                 c4 = c3\<lparr> nodes_by_region :=
                             route_regions (regions (node_heap c3 n)) default_node
                               (nodes_by_region c3) \<rparr>
             in c4\<lparr> tasks := tasks c4 @ [NodeDisabledEvent n] \<rparr>)"

text \<open>
  \<^verbatim>\<open>get_rest\<close>. The default node is looked up first, whatever the policy: the
  guard compares the index with the length only, so a negative index goes to
  the list. Under round robin the cursor is clamped to the last position,
  incremented, and reset once it exceeds the length. The result is the node or
  \<^verbatim>\<open>None\<close>, with the updated registry.
\<close>

definition get_rest :: "cluster \<Rightarrow> error + (nat option \<times> cluster)" where
  "get_rest c =
     (if nodes c = [] then Inl NoNodesAvailable
      else
        let len = int (length (nodes c))
        in case (if default_node_index c < len
                 then (case py_index (nodes c) (default_node_index c) of
                         Inl e \<Rightarrow> Inl e | Inr x \<Rightarrow> Inr (Some x))
                 else Inr None) of
             Inl e \<Rightarrow> Inl e
           | Inr node0 \<Rightarrow>
               let node1 = (if node0 = None \<and> \<not> round_robin c then Some (nodes c ! 0) else node0)
               in if round_robin c
                  then (case py_index (nodes c) (min (rr_pos c) (len - 1)) of
                          Inl e \<Rightarrow> Inl e
                        | Inr x \<Rightarrow>
                            let pos = rr_pos c + 1
                            in Inr (Some x, c\<lparr> rr_pos := (if pos > len then 0 else pos) \<rparr>))
                  else Inr (node1, c))"

text \<open>A run of consecutive \<^verbatim>\<open>get_rest\<close> calls, collecting what each returns.\<close>

fun get_rest_n :: "nat \<Rightarrow> cluster \<Rightarrow> error + (nat option list \<times> cluster)" where
  "get_rest_n 0 c = Inr ([], c)"
| "get_rest_n (Suc k) c =
     (case get_rest c of
        Inl e \<Rightarrow> Inl e
      | Inr (r, c') \<Rightarrow>
          (case get_rest_n k c' of
             Inl e \<Rightarrow> Inl e
           | Inr (rs, c'') \<Rightarrow> Inr (r # rs, c'')))"

text \<open>
  \<^verbatim>\<open>get_by_region\<close>. A guild carries its region and its id. The final call
  \<^verbatim>\<open>node.players.get(guild.id)\<close> belongs to the player manager, which is taken as
  the parameter \<open>players_get\<close>.
\<close>

record guild =
  region :: string
  guild_id :: int

definition get_by_region :: "(nat \<Rightarrow> int \<Rightarrow> cluster \<Rightarrow> 'r) \<Rightarrow> cluster \<Rightarrow> guild \<Rightarrow> error + 'r" where
  "get_by_region players_get c g =
     (case (case nodes_by_region c (region g) of
              Some n \<Rightarrow> Inr n
            | None \<Rightarrow> py_index (nodes c) 0) of
        Inl e \<Rightarrow> Inl e
      | Inr n \<Rightarrow> Inr (players_get n (guild_id g) c))"

section \<open>Reachable registry states\<close>

inductive reachable :: "cluster \<Rightarrow> bool" where
  r_init: "reachable (NodeManager_init default_node rr)"
| r_add: "reachable c \<Longrightarrow> reachable (add regs c)"
| r_ready: "reachable c \<Longrightarrow> reachable (on_node_ready n c)"
| r_disabled: "reachable c \<Longrightarrow> reachable (on_node_disabled n c)"
| r_get_rest: "reachable c \<Longrightarrow> get_rest c = Inr (r, c') \<Longrightarrow> reachable c'"
| r_register: "reachable c \<Longrightarrow> reachable (register_node_hook f c)"
| r_unregister: "reachable c \<Longrightarrow> reachable (unregister_node_hook f c)"

section \<open>Event hook dispatch\<close>

text \<open>
  What a hook call can do: return, or raise. The handler of
  \<^verbatim>\<open>_dispatch_node_event\<close> is \<^verbatim>\<open>except Exception\<close>, so a raised object is told
  apart by whether its class derives from \<^verbatim>\<open>Exception\<close> (\<open>Exception\<close>, with its
  text) or only from \<^verbatim>\<open>BaseException\<close>, as \<^verbatim>\<open>KeyboardInterrupt\<close>,
  \<^verbatim>\<open>SystemExit\<close> and \<^verbatim>\<open>GeneratorExit\<close> do (\<open>BaseException\<close>).
\<close>

datatype raised = Exception string | BaseException string

datatype outcome = Returned | Raised raised

text \<open>
  The dispatcher's view of one dispatch: the registry, whose hook list the loop
  reads while it runs, the state \<open>world\<close> outside the registry that the hooks act
  on, the hook calls made so far and the warnings logged (hook name, exception
  text).
\<close>

record 'w dispatch =
  registry :: cluster
  world :: 'w
  invoked :: "(hook \<times> event) list"
  warnings :: "(string \<times> string) list"

text \<open>
  Reading \<^verbatim>\<open>hook.__name__\<close> of a callable that has none (a \<^verbatim>\<open>functools.partial\<close>,
  an object with \<^verbatim>\<open>__call__\<close>) raises \<^verbatim>\<open>AttributeError\<close>.
\<close>

definition attribute_error :: raised where
  "attribute_error = Exception ''AttributeError: __name__''"

text \<open>
  The loop \<^verbatim>\<open>for hook in self._hooks\<close> of \<^verbatim>\<open>_dispatch_node_event\<close>. The list
  iterator keeps a position \<open>i\<close> and reads the list as it is at each step, so a
  hook that registers or unregisters hooks changes what the loop visits. \<open>run\<close>
  is the behaviour of the registered callables on the registry and the world (a
  coroutine function is awaited, any other callable is called: both run the
  hook to completion); \<open>name\<close> is their \<^verbatim>\<open>__name__\<close>, if they have one. The
  handler formats \<^verbatim>\<open>hook.__name__\<close>, and what that raises leaves the loop. The
  loop need not end (each hook may register another one), so it runs on fuel:
  \<open>None\<close> is out of fuel; otherwise the result is the exception that leaves the
  loop, if any, and the dispatch state at that moment.
\<close>

fun dispatch_hooks ::
  "nat \<Rightarrow> (hook \<Rightarrow> event \<Rightarrow> cluster \<times> 'w \<Rightarrow> outcome \<times> cluster \<times> 'w) \<Rightarrow> (hook \<Rightarrow> string option) \<Rightarrow>
   event \<Rightarrow> nat \<Rightarrow> 'w dispatch \<Rightarrow> (raised option \<times> 'w dispatch) option" where
  "dispatch_hooks 0 run name ev i s = None"
| "dispatch_hooks (Suc fuel) run name ev i s =
     (if i < length (hooks (registry s))
      then
        let h = hooks (registry s) ! i
        in case run h ev (registry s, world s) of
             (out, c', w') \<Rightarrow>
               let s' = s\<lparr> registry := c', world := w', invoked := invoked s @ [(h, ev)] \<rparr>
               in case out of
                    Returned \<Rightarrow> dispatch_hooks fuel run name ev (Suc i) s'
                  | Raised (Exception msg) \<Rightarrow>
                      (case name h of
                         None \<Rightarrow> Some (Some attribute_error, s')
                       | Some nm \<Rightarrow>
                           dispatch_hooks fuel run name ev (Suc i)
                             (s'\<lparr> warnings := warnings s' @ [(nm, msg)] \<rparr>))
                  | Raised (BaseException msg) \<Rightarrow> Some (Some (BaseException msg), s')
      else Some (None, s))"

definition dispatch_node_event ::
  "nat \<Rightarrow> (hook \<Rightarrow> event \<Rightarrow> cluster \<times> 'w \<Rightarrow> outcome \<times> cluster \<times> 'w) \<Rightarrow> (hook \<Rightarrow> string option) \<Rightarrow>
   cluster \<Rightarrow> event \<Rightarrow> 'w \<Rightarrow> (raised option \<times> 'w dispatch) option" where
  "dispatch_node_event fuel run name c ev w =
     dispatch_hooks fuel run name ev 0 \<lparr> registry = c, world = w, invoked = [], warnings = [] \<rparr>"


section \<open>Failover\<close>

text \<open>
  The methods of the player that \<^verbatim>\<open>manage_failover\<close> awaits are defined in the
  player module; they are the parameters \<open>connect\<close>, \<open>play\<close> and \<open>seek\<close>, each a
  transformer of the player's state.

  \<open>with_player\<close> applies such a transformer to the player stored under a guild
  in a node's dictionary: the dictionary holds the object that the method
  mutates.
\<close>

definition with_player :: "nat \<Rightarrow> int \<Rightarrow> (player \<Rightarrow> player) \<Rightarrow> cluster \<Rightarrow> cluster" where
  "with_player n g f c =
     c\<lparr> node_heap := (node_heap c)
          (n := (node_heap c n)\<lparr> players := AList.map_entry g f (players (node_heap c n)) \<rparr>) \<rparr>"

text \<open>
  The body of the loop of \<^verbatim>\<open>manage_failover\<close> for the guilds \<open>gs\<close>, the snapshot
  \<^verbatim>\<open>list(self.players._players)\<close>. \<^verbatim>\<open>pop\<close> of a key that is gone raises
  \<^verbatim>\<open>KeyError\<close>.
\<close>

fun failover_players ::
  "(int option \<Rightarrow> player \<Rightarrow> player) \<Rightarrow> (player \<Rightarrow> player) \<Rightarrow> (int \<Rightarrow> player \<Rightarrow> player) \<Rightarrow>
   nat \<Rightarrow> nat \<Rightarrow> int list \<Rightarrow> cluster \<Rightarrow> error + cluster" where
  "failover_players connect play seek self new_node [] c = Inr c"
| "failover_players connect play seek self new_node (g # gs) c =
     (case map_of (players (node_heap c self)) g of
        None \<Rightarrow> Inl KeyError
      | Some new_player \<Rightarrow>
          let c1 = c\<lparr> node_heap := (node_heap c)
                        (self := (node_heap c self)
                           \<lparr> players := AList.delete g (players (node_heap c self)) \<rparr>) \<rparr>;
              p1 = new_player\<lparr> node := new_node \<rparr>;
              playing = is_playing p1;
              current_track = previous p1;
              current_posit = prev_position p1;
              c2 = c1\<lparr> node_heap := (node_heap c1)
                         (new_node := (node_heap c1 new_node)
                            \<lparr> players := AList.update g p1 (players (node_heap c1 new_node)) \<rparr>) \<rparr>;
              c3 = c2\<lparr> voice_state_calls := voice_state_calls c2 @ [g] \<rparr>;
              c4 = (if playing
                    then
                      let d1 = with_player new_node g (\<lambda>p. connect (channel_id p) p) c3;
                          d2 = with_player new_node g
                                 (\<lambda>p. p\<lparr> queue := current_track # queue p \<rparr>) d1;
                          d3 = with_player new_node g play d2
                      in with_player new_node g (seek current_posit) d3
                    else c3)
          in failover_players connect play seek self new_node gs c4)"

definition manage_failover ::
  "(int option \<Rightarrow> player \<Rightarrow> player) \<Rightarrow> (player \<Rightarrow> player) \<Rightarrow> (int \<Rightarrow> player \<Rightarrow> player) \<Rightarrow>
   nat \<Rightarrow> cluster \<Rightarrow> error + cluster" where
  "manage_failover connect play seek self c =
     (if nodes c \<noteq> []
      then failover_players connect play seek self (nodes c ! 0)
             (map fst (players (node_heap c self))) c
      else Inr c)"

text \<open>
  Modelled from the spec: the transport layer's disconnect path, which is not
  among the sources. ``On disconnect, the transport signals the Cluster
  Registry, which demotes the node, updates routing, fires a hook event, and,
  if other nodes remain, triggers failover to migrate the demoted node's active
  sessions'': the node is demoted, then its failover procedure runs.
\<close>

definition node_disconnected ::
  "(int option \<Rightarrow> player \<Rightarrow> player) \<Rightarrow> (player \<Rightarrow> player) \<Rightarrow> (int \<Rightarrow> player \<Rightarrow> player) \<Rightarrow>
   nat \<Rightarrow> cluster \<Rightarrow> error + cluster" where
  "node_disconnected connect play seek self c =
     manage_failover connect play seek self (on_node_disabled self c)"

section \<open>Routing invariant\<close>

text \<open>Every Region key of the routing table maps to a node of the online list.\<close>

definition routes_online :: "cluster \<Rightarrow> bool" where
  "routes_online c \<longleftrightarrow> (\<forall>r n. nodes_by_region c r = Some n \<longrightarrow> n \<in> set (nodes c))"

section \<open>Sample configurations\<close>

text \<open>
  Registries built by the operations themselves, under round robin with default
  index 0: one, two and three nodes, registered for one region each and
  promoted in the order of registration.
\<close>

definition one_online :: cluster where
  "one_online = on_node_ready 0 (add [''brazil''] (NodeManager_init 0 True))"

definition two_online :: cluster where
  "two_online =
     on_node_ready 1 (on_node_ready 0
       (add [''japan''] (add [''brazil''] (NodeManager_init 0 True))))"

definition three_online :: cluster where
  "three_online =
     on_node_ready 2 (on_node_ready 1 (on_node_ready 0
       (add [''sydney''] (add [''japan''] (add [''brazil''] (NodeManager_init 0 True))))))"

text \<open>A registry with two hooks, and a player lookup that only reads the dictionary.\<close>

definition two_hooks :: cluster where
  "two_hooks = register_node_hook 1 (register_node_hook 0 (NodeManager_init 0 False))"

definition lookup_player :: "nat \<Rightarrow> int \<Rightarrow> cluster \<Rightarrow> player option" where
  "lookup_player n g c = map_of (players (node_heap c n)) g"

text \<open>
  Hook behaviours over a world that lists the hooks that ran. The first hook
  raises on every call (an \<^verbatim>\<open>Exception\<close> in \<open>failing_first\<close>, a \<^verbatim>\<open>SystemExit\<close> in
  \<open>exiting_first\<close>) or unregisters itself (\<open>leaving_first\<close>); every other hook
  returns. Under \<open>hook_name\<close> every hook has a name, under \<open>nameless_first\<close> the
  first hook has none.
\<close>

fun failing_first ::
  "hook \<Rightarrow> event \<Rightarrow> cluster \<times> hook list \<Rightarrow> outcome \<times> cluster \<times> hook list" where
  "failing_first h ev (c, w) =
     (if h = 0 then Raised (Exception ''boom'') else Returned, c, w @ [h])"


fun leaving_first ::
  "hook \<Rightarrow> event \<Rightarrow> cluster \<times> hook list \<Rightarrow> outcome \<times> cluster \<times> hook list" where
  "leaving_first h ev (c, w) =
     (Returned, if h = 0 then unregister_node_hook 0 c else c, w @ [h])"

fun hook_name :: "hook \<Rightarrow> string option" where
  "hook_name h = Some (if h = 0 then ''first_hook'' else ''other_hook'')"

fun nameless_first :: "hook \<Rightarrow> string option" where
  "nameless_first h = (if h = 0 then None else Some ''other_hook'')"

text \<open>A player manager that hands back the node it was called on.\<close>

definition selected_node :: "nat \<Rightarrow> int \<Rightarrow> cluster \<Rightarrow> nat" where
  "selected_node n g c = n"

text \<open>
  A small player: connecting stores the channel, playing takes the front of the
  queue, seeking stores the position. Node 0 of \<open>failover_scene\<close> owns a playing
  session for guild 10 and an idle one for guild 20.
\<close>

definition sample_connect :: "int option \<Rightarrow> player \<Rightarrow> player" where
  "sample_connect ch p = p\<lparr> channel_id := ch \<rparr>"

definition sample_play :: "player \<Rightarrow> player" where
  "sample_play p =
     (case queue p of
        [] \<Rightarrow> p\<lparr> is_playing := False \<rparr>
      | t # ts \<Rightarrow> p\<lparr> is_playing := True, previous := t, queue := ts \<rparr>)"

definition sample_seek :: "int \<Rightarrow> player \<Rightarrow> player" where
  "sample_seek pos p = p\<lparr> prev_position := pos \<rparr>"

definition playing_session :: player where
  "playing_session =
     \<lparr> node = 0, is_playing = True, previous = Some ''track'', prev_position = 42,
       channel_id = Some 5, queue = [] \<rparr>"

definition idle_session :: player where
  "idle_session =
     \<lparr> node = 0, is_playing = False, previous = None, prev_position = 0,
       channel_id = None, queue = [] \<rparr>"

definition failover_scene :: cluster where
  "failover_scene =
     two_online\<lparr> node_heap := (node_heap two_online)
       (0 := (node_heap two_online 0)
          \<lparr> players := [(10, playing_session), (20, idle_session)] \<rparr>) \<rparr>"

section \<open>Region sets\<close>

lemma Regions_check_ok: "set rs \<subseteq> set DISCORD_REGIONS \<Longrightarrow> Regions_check rs = Inr ()"
  by (induction rs) auto

lemma Regions_iter_id: "Regions_iter rs = rs"
  by (induction rs) auto

lemma DISCORD_REGIONS_distinct: "distinct DISCORD_REGIONS"
  by (simp add: DISCORD_REGIONS_def)

text \<open>
  C5, as amended. For every list of valid region identifiers the construction
  succeeds, and iterating the result yields the stored list as it is: the input
  list in its order, duplicates included, or the whole catalog when the input is
  empty. Nothing is deduplicated; each Region comes exactly once when the input
  list has no duplicates.
\<close>

theorem Regions_valid_iter:
  assumes "set rl \<subseteq> set DISCORD_REGIONS"
  shows "Regions_init (Some rl) = Inr (if rl = [] then DISCORD_REGIONS else rl)
       \<and> Regions_iter (if rl = [] then DISCORD_REGIONS else rl) =
           (if rl = [] then DISCORD_REGIONS else rl)
       \<and> (distinct rl \<longrightarrow> distinct (Regions_iter (if rl = [] then DISCORD_REGIONS else rl)))"
  using assms
  by (auto simp: Regions_init_def Regions_check_ok Regions_iter_id DISCORD_REGIONS_distinct)

theorem Regions_valid_iter_witness:
  "set [''japan'', ''brazil''] \<subseteq> set DISCORD_REGIONS
   \<and> Regions_init (Some [''japan'', ''brazil'']) = Inr [''japan'', ''brazil'']
   \<and> Regions_iter [''japan'', ''brazil''] = [''japan'', ''brazil'']
   \<and> distinct (Regions_iter [''japan'', ''brazil''])"
proof -
  have h: "set [''japan'', ''brazil''] \<subseteq> set DISCORD_REGIONS"
    by (simp add: DISCORD_REGIONS_def)
  show ?thesis using h Regions_valid_iter [OF h] by simp
qed

text \<open>
  C5 as stated fails: a valid list that names a Region twice is accepted and
  iteration yields that Region twice.
\<close>

theorem Regions_duplicates_kept:
  "set [''brazil'', ''brazil''] \<subseteq> set DISCORD_REGIONS
   \<and> Regions_init (Some [''brazil'', ''brazil'']) = Inr [''brazil'', ''brazil'']
   \<and> Regions_iter [''brazil'', ''brazil''] = [''brazil'', ''brazil'']
   \<and> \<not> distinct (Regions_iter [''brazil'', ''brazil''])"
  by (simp add: Regions_init_def DISCORD_REGIONS_def)

section \<open>Round robin\<close>

lemma distinct_count_one: "distinct xs \<Longrightarrow> x \<in> set xs \<Longrightarrow> count_list xs x = 1"
  by (induction xs) auto

lemma two_online_fields:
  "nodes two_online = [0, 1]" "offline_nodes two_online = []" "round_robin two_online"
  "rr_pos two_online = 0" "default_node_index two_online = 0"
  by (simp_all add: two_online_def on_node_ready_def add_def NodeManager_init_def Let_def)

text \<open>One call while the cursor is inside the list returns the node under it.\<close>

lemma get_rest_rr_step:
  assumes "round_robin c" "nodes c \<noteq> []" "- int (length (nodes c)) \<le> default_node_index c"
    "0 \<le> rr_pos c" "rr_pos c < int (length (nodes c))"
  shows "get_rest c = Inr (Some (nodes c ! nat (rr_pos c)), c\<lparr> rr_pos := rr_pos c + 1 \<rparr>)"
  using assms
  by (auto simp: get_rest_def py_index_def Let_def min_def split: sum.splits)

lemma get_rest_n_rr:
  assumes "round_robin c" "- int (length (nodes c)) \<le> default_node_index c"
    "rr_pos c = int j" "j + k = length (nodes c)"
  shows "get_rest_n k c =
           Inr (map Some (drop j (nodes c)), c\<lparr> rr_pos := int (length (nodes c)) \<rparr>)"
  using assms
proof (induction k arbitrary: c j)
  case 0
  then show ?case by simp
next
  case (Suc k)
  let ?c' = "c\<lparr> rr_pos := rr_pos c + 1 \<rparr>"
  have ne: "nodes c \<noteq> []" using Suc.prems by auto
  have step: "get_rest c = Inr (Some (nodes c ! j), ?c')"
    using get_rest_rr_step [of c] Suc.prems ne by simp
  have ih: "get_rest_n k ?c' =
              Inr (map Some (drop (Suc j) (nodes ?c')), ?c'\<lparr> rr_pos := int (length (nodes ?c')) \<rparr>)"
    by (rule Suc.IH) (use Suc.prems in auto)
  have dr: "drop j (nodes c) = nodes c ! j # drop (Suc j) (nodes c)"
    using Suc.prems by (simp add: Cons_nth_drop_Suc)
  show ?case using step ih dr by simp
qed

text \<open>
  The round-robin cycle when the default-node lookup that \<^verbatim>\<open>get_rest\<close> makes
  first does not raise, that is, when the default index is at least \<open>-N\<close>. With
  round robin enabled, the cursor at 0 and \<open>N \<ge> 1\<close> distinct nodes online, \<open>N\<close>
  consecutive calls return the online nodes in collection order, each exactly
  once; the cursor then stands at \<open>N\<close>, and the call after that resets it to 0.
\<close>

lemma round_robin_cycle:
  assumes "round_robin c" and "rr_pos c = 0" and "nodes c \<noteq> []" and "distinct (nodes c)"
    and "- int (length (nodes c)) \<le> default_node_index c"
  shows "get_rest_n (length (nodes c)) c =
           Inr (map Some (nodes c), c\<lparr> rr_pos := int (length (nodes c)) \<rparr>)
       \<and> (\<forall>n \<in> set (nodes c). count_list (map Some (nodes c)) (Some n) = 1)
       \<and> get_rest (c\<lparr> rr_pos := int (length (nodes c)) \<rparr>) =
           Inr (Some (last (nodes c)), c\<lparr> rr_pos := 0 \<rparr>)"
proof (intro conjI)
  show "get_rest_n (length (nodes c)) c =
          Inr (map Some (nodes c), c\<lparr> rr_pos := int (length (nodes c)) \<rparr>)"
    using get_rest_n_rr [of c 0 "length (nodes c)"] assms by simp
  show "\<forall>n \<in> set (nodes c). count_list (map Some (nodes c)) (Some n) = 1"
    using assms(4) by (simp add: count_list_map_conv distinct_count_one)
  show "get_rest (c\<lparr> rr_pos := int (length (nodes c)) \<rparr>) =
          Inr (Some (last (nodes c)), c\<lparr> rr_pos := 0 \<rparr>)"
  proof -
    have idx: "nat (int (length (nodes c)) - 1) = length (nodes c) - 1"
      by simp
    show ?thesis
      using assms(1,3,5) idx
      by (auto simp: get_rest_def py_index_def Let_def min_def last_conv_nth
               split: sum.splits)
  qed
qed

lemma round_robin_cycle_two_online:
  "round_robin two_online \<and> rr_pos two_online = 0 \<and> nodes two_online = [0, 1]
   \<and> get_rest_n 2 two_online = Inr ([Some 0, Some 1], two_online\<lparr> rr_pos := 2 \<rparr>)
   \<and> count_list [Some 0, Some (1::nat)] (Some 0) = 1
   \<and> get_rest (two_online\<lparr> rr_pos := 2 \<rparr>) = Inr (Some 1, two_online\<lparr> rr_pos := 0 \<rparr>)"
  using round_robin_cycle [of two_online] by (simp add: two_online_fields numeral_2_eq_2)

text \<open>
  C1. The claim says that with round robin enabled, \<open>N \<ge> 1\<close> nodes online and
  the cursor at 0, \<open>N\<close> consecutive \<^verbatim>\<open>get_rest\<close> calls return each online node
  once, in collection order. \<^verbatim>\<open>get_rest\<close> evaluates
  \<^verbatim>\<open>self.nodes[self.default_node_index]\<close> before it looks at the policy: with the
  default index \<open>-2\<close>, round robin enabled, one node online and the cursor at 0,
  the first call raises \<^verbatim>\<open>IndexError\<close> and returns no node.
\<close>

theorem round_robin_negative_default:
  "reachable (on_node_ready 0 (add [''brazil''] (NodeManager_init (- 2) True)))
   \<and> round_robin (on_node_ready 0 (add [''brazil''] (NodeManager_init (- 2) True)))
   \<and> rr_pos (on_node_ready 0 (add [''brazil''] (NodeManager_init (- 2) True))) = 0
   \<and> nodes (on_node_ready 0 (add [''brazil''] (NodeManager_init (- 2) True))) = [0]
   \<and> get_rest_n 1 (on_node_ready 0 (add [''brazil''] (NodeManager_init (- 2) True)))
       = Inl IndexError"
proof -
  have "reachable (on_node_ready 0 (add [''brazil''] (NodeManager_init (- 2) True)))"
    by (intro r_ready r_add r_init)
  then show ?thesis
    by (simp add: on_node_ready_def add_def NodeManager_init_def Let_def get_rest_def
        py_index_def)
qed

section \<open>Fields after each registry operation\<close>

lemmas op_defs = on_node_ready_def on_node_disabled_def add_def NodeManager_init_def Let_def

lemma in_remove1D: "x \<in> set (remove1 y xs) \<Longrightarrow> x \<in> set xs"
  using set_remove1_subset [of y xs] by auto

lemma set_remove1_cover: "set xs \<subseteq> insert y (set (remove1 y xs))"
  by (induction xs) auto

lemma route_regions_apply:
  "route_regions rs t tab r = (if r \<in> set rs then Some t else tab r)"
  by (induction rs arbitrary: tab) auto

lemma init_fields:
  "nodes (NodeManager_init d rr) = []" "offline_nodes (NodeManager_init d rr) = []"
  "nodes_by_region (NodeManager_init d rr) = Map.empty" "next_node (NodeManager_init d rr) = 0"
  "rr_pos (NodeManager_init d rr) = 0" "round_robin (NodeManager_init d rr) = rr"
  "default_node_index (NodeManager_init d rr) = d"
  by (simp_all add: NodeManager_init_def)

lemma add_fields [simp]:
  "nodes (add regs c) = nodes c"
  "offline_nodes (add regs c) = offline_nodes c @ [next_node c]"
  "nodes_by_region (add regs c) = nodes_by_region c"
  "rr_pos (add regs c) = rr_pos c"
  "round_robin (add regs c) = round_robin c"
  "next_node (add regs c) = Suc (next_node c)"
  by (simp_all add: add_def Let_def)

lemma ready_fields:
  "nodes (on_node_ready n c) = (if n \<in> set (offline_nodes c) then nodes c @ [n] else nodes c)"
  "offline_nodes (on_node_ready n c) = remove1 n (offline_nodes c)"
  "nodes_by_region (on_node_ready n c) r =
     (if n \<in> set (offline_nodes c) \<and> r \<in> set (regions (node_heap c n)) then Some n
      else nodes_by_region c r)"
  "rr_pos (on_node_ready n c) = rr_pos c"
  "round_robin (on_node_ready n c) = round_robin c"
  "next_node (on_node_ready n c) = next_node c"
  by (simp_all add: on_node_ready_def Let_def route_regions_apply remove1_idem)

lemma disabled_fields:
  "nodes (on_node_disabled n c) = remove1 n (nodes c)"
  "offline_nodes (on_node_disabled n c) =
     (if n \<in> set (nodes c) then offline_nodes c @ [n] else offline_nodes c)"
  "nodes_by_region (on_node_disabled n c) r =
     (if n \<in> set (nodes c) \<and> remove1 n (nodes c) \<noteq> [] \<and> r \<in> set (regions (node_heap c n))
      then Some (remove1 n (nodes c) ! 0) else nodes_by_region c r)"
  "rr_pos (on_node_disabled n c) = rr_pos c"
  "round_robin (on_node_disabled n c) = round_robin c"
  "next_node (on_node_disabled n c) = next_node c"
  by (simp_all add: on_node_disabled_def Let_def route_regions_apply remove1_idem)

lemma heap_fields:
  "node_heap (add regs c) =
     (node_heap c)(next_node c := \<lparr> regions = regs, ready = False, players = [] \<rparr>)"
  "regions (node_heap (on_node_ready n c) m) = regions (node_heap c m)"
  "regions (node_heap (on_node_disabled n c) m) = regions (node_heap c m)"
  by (simp_all add: op_defs)

lemma disabled_heap:
  assumes "n \<in> set (nodes c)"
  shows "node_heap (on_node_disabled n c) = (node_heap c)(n := (node_heap c n)\<lparr> ready := False \<rparr>)"
    and "voice_state_calls (on_node_disabled n c) = voice_state_calls c"
  using assms by (simp_all add: on_node_disabled_def Let_def)

lemma hook_fields [simp]:
  "nodes (register_node_hook f c) = nodes c"
  "offline_nodes (register_node_hook f c) = offline_nodes c"
  "nodes_by_region (register_node_hook f c) = nodes_by_region c"
  "rr_pos (register_node_hook f c) = rr_pos c"
  "round_robin (register_node_hook f c) = round_robin c"
  "next_node (register_node_hook f c) = next_node c"
  "nodes (unregister_node_hook f c) = nodes c"
  "offline_nodes (unregister_node_hook f c) = offline_nodes c"
  "nodes_by_region (unregister_node_hook f c) = nodes_by_region c"
  "rr_pos (unregister_node_hook f c) = rr_pos c"
  "round_robin (unregister_node_hook f c) = round_robin c"
  "next_node (unregister_node_hook f c) = next_node c"
  by (simp_all add: register_node_hook_def unregister_node_hook_def)

text \<open>\<^verbatim>\<open>get_rest\<close> changes nothing but the cursor.\<close>

lemma get_rest_frame:
  assumes "get_rest c = Inr (r, c')"
  shows "\<exists>p. c' = c\<lparr> rr_pos := p \<rparr>"
  using assms
  by (auto simp: get_rest_def Let_def split: if_splits sum.splits intro: exI [of _ "rr_pos c"])

lemma get_rest_cursor:
  assumes "get_rest c = Inr (r, c')"
  shows "rr_pos c' = (if round_robin c
                      then (if rr_pos c + 1 > int (length (nodes c)) then 0 else rr_pos c + 1)
                      else rr_pos c)"
  using assms
  by (auto simp: get_rest_def Let_def split: if_splits sum.splits)

lemma get_rest_fields:
  assumes "get_rest c = Inr (r, c')"
  shows "nodes c' = nodes c" "offline_nodes c' = offline_nodes c"
    "nodes_by_region c' = nodes_by_region c" "round_robin c' = round_robin c"
    "next_node c' = next_node c"
  using get_rest_frame [OF assms] by auto

section \<open>The sample configurations\<close>

lemma reachable_one_online: "reachable one_online"
  unfolding one_online_def by (intro r_ready r_add r_init)

lemma reachable_two_online: "reachable two_online"
  unfolding two_online_def by (intro r_ready r_add r_init)

lemma reachable_three_online: "reachable three_online"
  unfolding three_online_def by (intro r_ready r_add r_init)

lemma one_online_fields:
  "nodes one_online = [0]" "offline_nodes one_online = []" "round_robin one_online"
  "rr_pos one_online = 0" "default_node_index one_online = 0"
  "nodes_by_region one_online = [''brazil'' \<mapsto> 0]"
  by (simp_all add: one_online_def op_defs)

lemma two_online_routes:
  "nodes_by_region two_online = [''brazil'' \<mapsto> 0, ''japan'' \<mapsto> 1]"
  "regions (node_heap two_online 0) = [''brazil'']"
  "regions (node_heap two_online (Suc 0)) = [''japan'']"
  by (simp_all add: two_online_def op_defs)

lemma three_online_fields:
  "nodes three_online = [0, 1, 2]"
  "regions (node_heap three_online 0) = [''brazil'']"
  "regions (node_heap three_online (Suc 0)) = [''japan'']"
  "nodes_by_region three_online ''japan'' = Some 1"
  by (simp_all add: three_online_def ready_fields heap_fields init_fields)

lemma three_demoted_fields:
  "nodes (on_node_disabled (Suc 0) three_online) = [0, 2]"
  "nodes_by_region (on_node_disabled (Suc 0) three_online) ''japan'' = Some 0"
  "regions (node_heap (on_node_disabled (Suc 0) three_online) 0) = [''brazil'']"
  by (simp_all add: disabled_fields heap_fields three_online_fields)

lemma two_hooks_fields: "hooks two_hooks = [0, 1]"
  by (simp add: two_hooks_def register_node_hook_def NodeManager_init_def)

lemma get_rest_one_online: "get_rest one_online = Inr (Some 0, one_online\<lparr> rr_pos := 1 \<rparr>)"
  using get_rest_rr_step [of one_online] by (simp add: one_online_fields)

lemma failover_scene_fields:
  "nodes failover_scene = [0, 1]"
  "players (node_heap failover_scene 0) = [(10, playing_session), (20, idle_session)]"
  "players (node_heap failover_scene (Suc 0)) = []"
  "voice_state_calls failover_scene = []"
  by (simp_all add: failover_scene_def two_online_def op_defs)

section \<open>Invariants of the reachable states\<close>

text \<open>Node identifiers are handed out in order, so a registered node is below the counter.\<close>

lemma reachable_fresh:
  "reachable c \<Longrightarrow> \<forall>n \<in> set (nodes c) \<union> set (offline_nodes c). n < next_node c"
proof (induction rule: reachable.induct)
  case (r_init d rr) show ?case by (simp add: NodeManager_init_def)
next
  case (r_add c regs) then show ?case by (auto simp: less_Suc_eq)
next
  case (r_ready c n) then show ?case
    by (auto simp: ready_fields dest: in_remove1D split: if_splits)
next
  case (r_disabled c n) then show ?case
    by (auto simp: disabled_fields dest: in_remove1D split: if_splits)
next
  case (r_get_rest c r c') then show ?case by (simp add: get_rest_fields)
next
  case (r_register c f) then show ?case by simp
next
  case (r_unregister c f) then show ?case by simp
qed

text \<open>A node is in at most one of the two lists, and at most once.\<close>

lemma reachable_distinct:
  "reachable c \<Longrightarrow> distinct (nodes c @ offline_nodes c)"
proof (induction rule: reachable.induct)
  case (r_init d rr) show ?case by (simp add: NodeManager_init_def)
next
  case (r_add c regs)
  then show ?case using reachable_fresh [of c] by auto
next
  case (r_ready c n) then show ?case
    by (auto simp: ready_fields dest: in_remove1D split: if_splits)
next
  case (r_disabled c n) then show ?case
    by (auto simp: disabled_fields dest: in_remove1D split: if_splits)
next
  case (r_get_rest c r c') then show ?case by (simp add: get_rest_fields)
next
  case (r_register c f) then show ?case by simp
next
  case (r_unregister c f) then show ?case by simp
qed

lemma reachable_cursor:
  "reachable c \<Longrightarrow>
     0 \<le> rr_pos c \<and> rr_pos c \<le> int (length (nodes c) + length (offline_nodes c))
     \<and> (\<not> round_robin c \<longrightarrow> rr_pos c = 0)"
proof (induction rule: reachable.induct)
  case (r_init d rr) show ?case by (simp add: NodeManager_init_def)
next
  case (r_add c regs) then show ?case by auto
next
  case (r_ready c n) then show ?case
    by (auto simp: ready_fields length_remove1 remove1_idem)
next
  case (r_disabled c n) then show ?case
    by (auto simp: disabled_fields length_remove1 remove1_idem)
next
  case (r_get_rest c r c')
  then show ?case
    using get_rest_cursor [of c r c'] get_rest_fields [of c r c'] by (auto split: if_splits)
next
  case (r_register c f) then show ?case by simp
next
  case (r_unregister c f) then show ?case by simp
qed

lemma reachable_routes:
  "reachable c \<Longrightarrow> nodes_by_region c r = Some n \<Longrightarrow> n \<in> set (nodes c) \<union> set (offline_nodes c)"
proof (induction arbitrary: r n rule: reachable.induct)
  case (r_init d rr) then show ?case by (simp add: NodeManager_init_def)
next
  case (r_add c regs) then show ?case by auto
next
  case (r_ready c m)
  show ?case
  proof (cases "m \<in> set (offline_nodes c)")
    case True
    have "set (offline_nodes c) \<subseteq> insert m (set (remove1 m (offline_nodes c)))"
      by (rule set_remove1_cover)
    then show ?thesis using r_ready True
      by (fastforce simp: ready_fields split: if_splits)
  next
    case False
    then show ?thesis using r_ready by (simp add: on_node_ready_def)
  qed
next
  case (r_disabled c m)
  show ?case
  proof (cases "m \<in> set (nodes c)")
    case True
    have sub: "set (nodes c) \<subseteq> insert m (set (remove1 m (nodes c)))"
      by (rule set_remove1_cover)
    show ?thesis
    proof (cases "remove1 m (nodes c) \<noteq> [] \<and> r \<in> set (regions (node_heap c m))")
      case True
      then have "n = remove1 m (nodes c) ! 0"
        using r_disabled.prems \<open>m \<in> set (nodes c)\<close> by (simp add: disabled_fields)
      then have "n \<in> set (remove1 m (nodes c))"
        using True by (cases "remove1 m (nodes c)") auto
      then show ?thesis by (simp add: disabled_fields)
    next
      case False
      then have "nodes_by_region c r = Some n"
        using r_disabled.prems by (auto simp: disabled_fields split: if_splits)
      then have "n \<in> set (nodes c) \<union> set (offline_nodes c)"
        by (rule r_disabled.IH)
      then show ?thesis using sub \<open>m \<in> set (nodes c)\<close>
        by (auto simp: disabled_fields)
    qed
  next
    case False
    then show ?thesis using r_disabled by (simp add: on_node_disabled_def)
  qed
next
  case (r_get_rest c res c') then show ?case by (simp add: get_rest_fields)
next
  case (r_register c f) then show ?case by simp
next
  case (r_unregister c f) then show ?case by simp
qed

section \<open>The routing table\<close>

text \<open>
  C2, as amended. In every reachable state each Region key of the routing
  table maps to a registered node, one of the online or of the offline list.
  \<^verbatim>\<open>add\<close> and \<^verbatim>\<open>on_node_ready\<close> preserve that every routed node is online;
  \<^verbatim>\<open>on_node_disabled\<close> preserves it when an online node remains and every region
  routed to the demoted node belongs to that node's own region list.
\<close>

theorem routes_registered:
  assumes "reachable c"
  shows "(\<forall>r n. nodes_by_region c r = Some n \<longrightarrow> n \<in> set (nodes c) \<union> set (offline_nodes c))
       \<and> (routes_online c \<longrightarrow> routes_online (add regs c) \<and> routes_online (on_node_ready m c))
       \<and> (routes_online c \<and> k \<in> set (nodes c) \<and> remove1 k (nodes c) \<noteq> []
            \<and> (\<forall>r. nodes_by_region c r = Some k \<longrightarrow> r \<in> set (regions (node_heap c k)))
          \<longrightarrow> routes_online (on_node_disabled k c))"
proof (intro conjI)
  show "\<forall>r n. nodes_by_region c r = Some n \<longrightarrow> n \<in> set (nodes c) \<union> set (offline_nodes c)"
    using reachable_routes [OF assms] by blast
  show "routes_online c \<longrightarrow> routes_online (add regs c) \<and> routes_online (on_node_ready m c)"
    by (auto simp: routes_online_def ready_fields split: if_splits)
  show "routes_online c \<and> k \<in> set (nodes c) \<and> remove1 k (nodes c) \<noteq> []
          \<and> (\<forall>r. nodes_by_region c r = Some k \<longrightarrow> r \<in> set (regions (node_heap c k)))
        \<longrightarrow> routes_online (on_node_disabled k c)"
  proof (intro impI, elim conjE)
    assume ro: "routes_online c" and k: "k \<in> set (nodes c)"
      and ne: "remove1 k (nodes c) \<noteq> []"
      and own: "\<forall>r. nodes_by_region c r = Some k \<longrightarrow> r \<in> set (regions (node_heap c k))"
    have hd_in: "remove1 k (nodes c) ! 0 \<in> set (remove1 k (nodes c))"
      using ne by (cases "remove1 k (nodes c)") auto
    have keep: "n \<in> set (remove1 k (nodes c))" if "n \<in> set (nodes c)" "n \<noteq> k" for n
      using that set_remove1_cover [of "nodes c" k] by auto
    show "routes_online (on_node_disabled k c)"
      unfolding routes_online_def
    proof (intro allI impI)
      fix r n
      assume a: "nodes_by_region (on_node_disabled k c) r = Some n"
      show "n \<in> set (nodes (on_node_disabled k c))"
      proof (cases "r \<in> set (regions (node_heap c k))")
        case True
        then show ?thesis using a k ne hd_in by (simp add: disabled_fields)
      next
        case False
        then have b: "nodes_by_region c r = Some n" using a by (simp add: disabled_fields)
        then have "n \<noteq> k" using own False by auto
        moreover have "n \<in> set (nodes c)" using ro b by (auto simp: routes_online_def)
        ultimately show ?thesis using keep by (simp add: disabled_fields)
      qed
    qed
  qed
qed

lemma routes_online_two: "routes_online two_online"
  by (auto simp: routes_online_def two_online_routes two_online_fields split: if_splits)

theorem routes_registered_witness:
  "reachable two_online \<and> routes_online two_online
   \<and> nodes_by_region two_online ''japan'' = Some 1
   \<and> 1 \<in> set (nodes two_online) \<union> set (offline_nodes two_online)
   \<and> routes_online (add [''sydney''] two_online)
   \<and> routes_online (on_node_ready 2 (add [''sydney''] two_online))
   \<and> routes_online (on_node_disabled 0 two_online)"
proof -
  have own: "\<forall>r. nodes_by_region two_online r = Some 0
               \<longrightarrow> r \<in> set (regions (node_heap two_online 0))"
    by (auto simp: two_online_routes split: if_splits)
  have r2: "reachable (add [''sydney''] two_online)"
    by (rule r_add) (rule reachable_two_online)
  have "routes_online (add [''sydney''] two_online)"
    using routes_registered [OF reachable_two_online, of "[''sydney'']" 0 0] routes_online_two
    by simp
  then have "routes_online (on_node_ready 2 (add [''sydney''] two_online))"
    using routes_registered [OF r2, of "[]" 2 0] by simp
  then show ?thesis
    using routes_registered [OF reachable_two_online, of "[''sydney'']" 0 0]
      routes_online_two own reachable_two_online
    by (simp add: two_online_fields two_online_routes)
qed

text \<open>
  C2 as stated fails: after the only online node is demoted, its region still
  maps to it, and it is offline.
\<close>

theorem route_to_offline_node:
  "reachable (on_node_disabled 0 one_online)
   \<and> nodes (on_node_disabled 0 one_online) = []
   \<and> nodes_by_region (on_node_disabled 0 one_online) ''brazil'' = Some 0
   \<and> 0 \<notin> set (nodes (on_node_disabled 0 one_online))"
proof -
  have "reachable (on_node_disabled 0 one_online)"
    by (rule r_disabled) (rule reachable_one_online)
  then show ?thesis
    by (simp add: disabled_fields one_online_fields)
qed

text \<open>
  What the loop of \<^verbatim>\<open>on_node_disabled\<close> writes when an online node remains: the
  entries of the regions in the demoted node's own region list, and no other
  entry.
\<close>

lemma demote_repoints_own_regions:
  assumes "n \<in> set (nodes c)" and "remove1 n (nodes c) \<noteq> []"
  shows "nodes (on_node_disabled n c) = remove1 n (nodes c)
       \<and> nodes_by_region (on_node_disabled n c) r =
           (if r \<in> set (regions (node_heap c n)) then Some (remove1 n (nodes c) ! 0)
            else nodes_by_region c r)"
  using assms by (simp add: disabled_fields)

lemma demote_repoints_own_regions_two_online:
  "0 \<in> set (nodes two_online) \<and> remove1 0 (nodes two_online) = [1]
   \<and> nodes (on_node_disabled 0 two_online) = [1]
   \<and> nodes_by_region (on_node_disabled 0 two_online) ''brazil'' = Some 1
   \<and> nodes_by_region (on_node_disabled 0 two_online) ''japan'' = Some 1"
  using demote_repoints_own_regions [of 0 two_online "''brazil''"]
    demote_repoints_own_regions [of 0 two_online "''japan''"]
  by (simp add: two_online_fields two_online_routes)

text \<open>
  C4. The claim says that a demotion with an online node left repoints every
  region that was routed to the demoted node to the first remaining online
  node. With nodes 0, 1, 2 online, demoting node 1 routes its region \<open>japan\<close>
  to node 0. Demoting node 0 next leaves node 2 online; \<open>japan\<close>, routed to
  node 0 immediately before, is not in node 0's own region list and still maps
  to node 0, which is offline, so \<^verbatim>\<open>get_by_region\<close> selects node 0 for a guild of
  that region.
\<close>

theorem demote_leaves_stale_route:
  "reachable (on_node_disabled 1 three_online)
   \<and> nodes (on_node_disabled 1 three_online) = [0, 2]
   \<and> nodes_by_region (on_node_disabled 1 three_online) ''japan'' = Some 0
   \<and> nodes (on_node_disabled 0 (on_node_disabled 1 three_online)) = [2]
   \<and> nodes_by_region (on_node_disabled 0 (on_node_disabled 1 three_online)) ''japan'' = Some 0
   \<and> get_by_region selected_node (on_node_disabled 0 (on_node_disabled 1 three_online))
       \<lparr> region = ''japan'', guild_id = 7 \<rparr> = Inr 0"
proof -
  have r: "reachable (on_node_disabled 1 three_online)"
    by (rule r_disabled) (rule reachable_three_online)
  have n: "nodes (on_node_disabled 0 (on_node_disabled 1 three_online)) = [2]"
    by (simp add: disabled_fields [of 0] three_demoted_fields)
  have j: "nodes_by_region (on_node_disabled 0 (on_node_disabled 1 three_online)) ''japan''
             = Some 0"
    by (simp add: disabled_fields [of 0] three_demoted_fields)
  have g: "get_by_region selected_node (on_node_disabled 0 (on_node_disabled 1 three_online))
             \<lparr> region = ''japan'', guild_id = 7 \<rparr> = Inr 0"
    using j by (simp add: get_by_region_def selected_node_def)
  show ?thesis
    using r n j g by (simp add: three_demoted_fields)
qed

section \<open>The round-robin cursor\<close>

text \<open>
  C6, as amended. In every reachable state the cursor is at least 0 and at most
  the number of registered nodes. \<^verbatim>\<open>on_node_ready\<close> and \<^verbatim>\<open>on_node_disabled\<close> leave
  the cursor as it is. Every \<^verbatim>\<open>get_rest\<close> call that returns leaves the cursor
  within \<open>[0, len(online)]\<close>; under round robin the new cursor is the old one plus
  1, or 0 if that would exceed \<open>len(online)\<close>.
\<close>

theorem cursor_bounds:
  assumes "reachable c"
  shows "0 \<le> rr_pos c \<and> rr_pos c \<le> int (length (nodes c) + length (offline_nodes c))
       \<and> rr_pos (on_node_ready n c) = rr_pos c
       \<and> rr_pos (on_node_disabled n c) = rr_pos c
       \<and> (\<forall>r c'. get_rest c = Inr (r, c') \<longrightarrow>
             0 \<le> rr_pos c' \<and> rr_pos c' \<le> int (length (nodes c'))
             \<and> (round_robin c \<longrightarrow>
                  rr_pos c' = (if rr_pos c + 1 > int (length (nodes c)) then 0 else rr_pos c + 1)))"
proof -
  have inv: "0 \<le> rr_pos c" "rr_pos c \<le> int (length (nodes c) + length (offline_nodes c))"
    "\<not> round_robin c \<longrightarrow> rr_pos c = 0"
    using reachable_cursor [OF assms] by auto
  have step: "0 \<le> rr_pos c' \<and> rr_pos c' \<le> int (length (nodes c'))
      \<and> (round_robin c \<longrightarrow>
           rr_pos c' = (if rr_pos c + 1 > int (length (nodes c)) then 0 else rr_pos c + 1))"
    if g: "get_rest c = Inr (r, c')" for r c'
    using get_rest_cursor [OF g] get_rest_fields(1) [OF g] inv
    by (auto split: if_splits)
  show ?thesis
    using inv step by (simp add: ready_fields disabled_fields)
qed

theorem cursor_bounds_witness:
  "reachable one_online
   \<and> get_rest one_online = Inr (Some 0, one_online\<lparr> rr_pos := 1 \<rparr>)
   \<and> round_robin one_online
   \<and> rr_pos (one_online\<lparr> rr_pos := 1 \<rparr>) \<le> int (length (nodes (one_online\<lparr> rr_pos := 1 \<rparr>)))
   \<and> rr_pos (one_online\<lparr> rr_pos := 1 \<rparr>) = rr_pos one_online + 1
   \<and> rr_pos (on_node_disabled 0 one_online) = rr_pos one_online"
  using cursor_bounds [OF reachable_one_online, of 0] get_rest_one_online reachable_one_online
  by (simp add: one_online_fields)

text \<open>
  C6 as stated fails: one node online, one \<^verbatim>\<open>get_rest\<close> call (cursor 1), then the
  node is demoted. The cursor is 1 and the online list is empty.
\<close>

theorem cursor_exceeds_after_demote:
  "reachable (on_node_disabled 0 (one_online\<lparr> rr_pos := 1 \<rparr>))
   \<and> nodes (on_node_disabled 0 (one_online\<lparr> rr_pos := 1 \<rparr>)) = []
   \<and> rr_pos (on_node_disabled 0 (one_online\<lparr> rr_pos := 1 \<rparr>)) = 1
   \<and> \<not> rr_pos (on_node_disabled 0 (one_online\<lparr> rr_pos := 1 \<rparr>))
         \<le> int (length (nodes (on_node_disabled 0 (one_online\<lparr> rr_pos := 1 \<rparr>))))"
proof -
  have "reachable (one_online\<lparr> rr_pos := 1 \<rparr>)"
    using reachable_one_online get_rest_one_online by (rule r_get_rest)
  then have "reachable (on_node_disabled 0 (one_online\<lparr> rr_pos := 1 \<rparr>))"
    by (rule r_disabled)
  then show ?thesis
    by (simp add: disabled_fields one_online_fields)
qed

section \<open>Selection\<close>

lemma get_rest_no_nodes: "get_rest c = Inl NoNodesAvailable \<longleftrightarrow> nodes c = []"
  by (auto simp: get_rest_def py_index_def Let_def split: sum.splits if_splits)

text \<open>
  With a node online, a cursor that is not negative and a default index of at
  least \<open>-len(online)\<close>, \<^verbatim>\<open>get_rest\<close> returns an online node.
\<close>

lemma get_rest_returns:
  assumes "nodes c \<noteq> []" and "- int (length (nodes c)) \<le> default_node_index c"
    and "0 \<le> rr_pos c"
  shows "\<exists>n c'. get_rest c = Inr (Some n, c') \<and> n \<in> set (nodes c)"
proof -
  have len: "0 < length (nodes c)" using assms(1) by simp
  have "nat (int (length (nodes c)) - 1) < length (nodes c)"
    using len by linarith
  then have lst: "nodes c ! nat (int (length (nodes c)) - 1) \<in> set (nodes c)"
    by (rule nth_mem)
  show ?thesis
    using assms len lst
    by (auto simp: get_rest_def py_index_def Let_def min_def split: sum.splits)
qed

text \<open>
  C7. The claim says that \<^verbatim>\<open>get_rest\<close> returns a node whenever the online list is
  not empty. With the default index \<open>-2\<close> and one node online, the guard
  \<^verbatim>\<open>default_node_index < len(self.nodes)\<close> holds, \<^verbatim>\<open>self.nodes[-2]\<close> is evaluated and
  raises \<^verbatim>\<open>IndexError\<close>.
\<close>

theorem get_rest_negative_default:
  "nodes (on_node_ready 0 (add [''brazil''] (NodeManager_init (- 2) False))) = [0]
   \<and> get_rest (on_node_ready 0 (add [''brazil''] (NodeManager_init (- 2) False))) = Inl IndexError"
  by (simp add: op_defs get_rest_def py_index_def)

text \<open>
  C10. With no node online and no routing entry for the guild's region,
  \<^verbatim>\<open>get_by_region\<close> raises \<^verbatim>\<open>IndexError\<close> from \<^verbatim>\<open>self.nodes[0]\<close>, not
  \<^verbatim>\<open>NoNodesAvailable\<close>.
\<close>

theorem get_by_region_index_error:
  assumes "nodes c = []" and "nodes_by_region c (region g) = None"
  shows "get_by_region players_get c g = Inl IndexError"
  using assms by (simp add: get_by_region_def py_index_def)

theorem get_by_region_index_error_witness:
  "nodes (NodeManager_init 0 False) = []
   \<and> nodes_by_region (NodeManager_init 0 False) (region \<lparr> region = ''brazil'', guild_id = 7 \<rparr>) = None
   \<and> get_by_region lookup_player (NodeManager_init 0 False) \<lparr> region = ''brazil'', guild_id = 7 \<rparr>
       = Inl IndexError"
  using get_by_region_index_error
    [of "NodeManager_init 0 False" "\<lparr> region = ''brazil'', guild_id = 7 \<rparr>" lookup_player]
  by (simp add: NodeManager_init_def)

section \<open>Promotion and demotion outside the source list\<close>

text \<open>
  C9. \<^verbatim>\<open>on_node_ready\<close> for a node that is not in the offline list, and
  \<^verbatim>\<open>on_node_disabled\<close> for a node that is not in the online list, return the
  state they were given: both lists, the routing table, the readiness signals,
  the cursor and the list of dispatch tasks are unchanged.
\<close>

theorem promote_demote_noop:
  "(n \<notin> set (offline_nodes c) \<longrightarrow> on_node_ready n c = c)
   \<and> (n \<notin> set (nodes c) \<longrightarrow> on_node_disabled n c = c)"
  by (simp add: on_node_ready_def on_node_disabled_def)

theorem promote_demote_noop_witness:
  "0 \<notin> set (offline_nodes two_online) \<and> on_node_ready 0 two_online = two_online
   \<and> 5 \<notin> set (nodes two_online) \<and> on_node_disabled 5 two_online = two_online"
  using promote_demote_noop [of 0 two_online] promote_demote_noop [of 5 two_online]
  by (simp add: two_online_fields)

section \<open>Hook dispatch\<close>






text \<open>
  The two cases that the hypotheses of the amended C8 leave out. A first hook
  without \<^verbatim>\<open>__name__\<close> that raises: the handler raises \<^verbatim>\<open>AttributeError\<close>, which
  leaves the dispatch before the second hook is called. A first hook that
  unregisters itself: the list shrinks under the iterator and the second hook
  is skipped.
\<close>

lemma dispatch_nameless_hook:
  "dispatch_node_event 3 failing_first nameless_first two_hooks (NodeReadyEvent 0) []
     = Some (Some attribute_error,
             \<lparr> registry = two_hooks, world = [0], invoked = [(0, NodeReadyEvent 0)],
               warnings = [] \<rparr>)"
  by (simp add: two_hooks_fields dispatch_node_event_def numeral_3_eq_3)

lemma dispatch_unregistering_hook:
  "dispatch_node_event 3 leaving_first hook_name two_hooks (NodeReadyEvent 0) []
     = Some (None,
             \<lparr> registry = unregister_node_hook 0 two_hooks, world = [0],
               invoked = [(0, NodeReadyEvent 0)], warnings = [] \<rparr>)"
  by (simp add: two_hooks_fields dispatch_node_event_def numeral_3_eq_3
      unregister_node_hook_def)

section \<open>Failover\<close>

lemma map_of_map_entry:
  "map_of (AList.map_entry k f al) k' =
     (if k' = k then map_option f (map_of al k) else map_of al k')"
  by (induction al) auto

text \<open>
  C3. Node \<open>A\<close> is online and owns exactly the sessions \<open>g1\<close>, playing, with the
  track \<open>T\<close> in \<^verbatim>\<open>previous\<close> and the position \<open>P\<close> in \<^verbatim>\<open>_prev_position\<close>, and \<open>g2\<close>,
  idle; \<open>B\<close> is the first online node once \<open>A\<close> is removed. After \<open>A\<close> is demoted
  and its failover has run, \<open>A\<close> owns no session and \<open>B\<close> owns both. The session
  of \<open>g1\<close> is the old one with its node set to \<open>B\<close>, then connected to its
  channel, then given \<open>T\<close> at the front of its queue, then played, then sought
  to \<open>P\<close>. The session of \<open>g2\<close> is the old one with its node set to \<open>B\<close> and
  nothing else. The voice connection of both guilds was released, in order.
\<close>

theorem failover_scenario:
  assumes "A \<in> set (nodes c)" and "remove1 A (nodes c) = B # rest" and "A \<noteq> B"
    and "players (node_heap c A) = [(g1, p1), (g2, p2)]" and "g1 \<noteq> g2"
    and "is_playing p1" and "previous p1 = Some T" and "prev_position p1 = P"
    and "\<not> is_playing p2"
  shows "\<exists>c'. node_disconnected connect play seek A c = Inr c'
        \<and> players (node_heap c' A) = []
        \<and> map_of (players (node_heap c' B)) g1 =
            Some (seek P (play ((connect (channel_id p1) (p1\<lparr> node := B \<rparr>))
                     \<lparr> queue := Some T # queue (connect (channel_id p1) (p1\<lparr> node := B \<rparr>)) \<rparr>)))
        \<and> map_of (players (node_heap c' B)) g2 = Some (p2\<lparr> node := B \<rparr>)
        \<and> voice_state_calls c' = voice_state_calls c @ [g1, g2]"
proof -
  let ?d = "on_node_disabled A c"
  have nd: "nodes ?d = B # rest"
    using assms(2) by (simp add: disabled_fields)
  have hp: "node_heap ?d = (node_heap c)(A := (node_heap c A)\<lparr> ready := False \<rparr>)"
    and vs: "voice_state_calls ?d = voice_state_calls c"
    using disabled_heap [OF assms(1)] by auto
  show ?thesis
    using assms(3-) nd hp vs
    by (simp add: node_disconnected_def manage_failover_def Let_def with_player_def
        map_of_map_entry update_conv')
qed

theorem failover_scenario_witness:
  "0 \<in> set (nodes failover_scene) \<and> remove1 0 (nodes failover_scene) = [1]
   \<and> players (node_heap failover_scene 0) = [(10, playing_session), (20, idle_session)]
   \<and> is_playing playing_session \<and> previous playing_session = Some ''track''
   \<and> prev_position playing_session = 42 \<and> \<not> is_playing idle_session
   \<and> (\<exists>c'. node_disconnected sample_connect sample_play sample_seek 0 failover_scene = Inr c'
        \<and> players (node_heap c' 0) = []
        \<and> map_of (players (node_heap c' 1)) 10 =
            Some \<lparr> node = 1, is_playing = True, previous = Some ''track'', prev_position = 42,
                   channel_id = Some 5, queue = [] \<rparr>
        \<and> map_of (players (node_heap c' 1)) 20 = Some (idle_session\<lparr> node := 1 \<rparr>)
        \<and> voice_state_calls c' = [10, 20])"
  using failover_scenario [where A = 0 and c = failover_scene and B = 1 and rest = "[]"
      and ?g1.0 = 10 and ?p1.0 = playing_session and ?g2.0 = 20 and ?p2.0 = idle_session
      and T = "''track''" and P = 42
      and connect = sample_connect and play = sample_play and seek = sample_seek]
  by (simp add: failover_scene_fields playing_session_def idle_session_def
      sample_connect_def sample_play_def sample_seek_def)

end
